theory Spec2Isabelle
  imports Complex_Main "HOL-Library.AList" "HOL-Library.Multiset"
begin

text \<open>
  The repository is one annotated source file, \<open>src/index.js\<close>: four versions of a small
  API over a repository of persons, each version an object literal with its own
  repository, and two migrations that fill the repository of a new version from that of
  the version before (a copy for version 2, a loop with an adapter function for version
  4). The second file holds the first lines of the same text, the type declarations of
  versions 1 to 3, and no code of its own. The API types and the assignments between the
  control instances exist for the type checker only and have no run-time content.
\<close>

section \<open>Values of the program\<close>

text \<open>
  A \<open>Date\<close> object holds a time value in milliseconds, or NaN (an invalid date).
\<close>

datatype date = Date int | InvalidDate

text \<open>
  \<open>type v1Person = { id: string, name: string, age: number }\<close>, with
  \<open>v2Person = v1Person\<close>, \<open>v3Person = v2Person\<close>, and
  \<open>type v4Person = { id: string, name: string, age: number, birth: Date }\<close>.
  Object types are open in width, so one record serves the four versions: \<open>p_birth\<close> is
  \<open>None\<close> for an object that has no own property \<open>birth\<close>. The program never writes
  to a person object, so persons are held by value. Numbers are only copied.
\<close>

record person =
  p_id :: string
  p_name :: string
  p_age :: real
  p_birth :: "date option"

text \<open>What a property read can return.\<close>

datatype val =
    Undefined
  | Str string
  | Num real
  | DateV date
  | PersonV person
  | Builtin string
  | ObjectPrototype

text \<open>The own enumerable properties of a person object.\<close>

definition person_own :: "person \<Rightarrow> (string \<times> val) list" where
  "person_own p =
     [(''id'', Str (p_id p)), (''name'', Str (p_name p)), (''age'', Num (p_age p))] @
     (case p_birth p of None \<Rightarrow> [] | Some d \<Rightarrow> [(''birth'', DateV d)])"

section \<open>The repositories: objects used as dictionaries\<close>

text \<open>
  \<open>people: { [key: string]: v1Person }\<close> is an ordinary object, created by the literal
  \<open>{}\<close>. \<open>props\<close> holds its own properties in creation order; \<open>proto\<close> is its
  prototype: \<open>None\<close> for \<open>Object.prototype\<close>, which every object literal starts with,
  \<open>Some p\<close> once a person has been assigned to the key \<open>__proto__\<close>.
\<close>

record store =
  props :: "(string \<times> person) list"
  proto :: "person option"

definition empty_object :: store where
  "empty_object = \<lparr>props = [], proto = None\<rparr>"

text \<open>The properties every ordinary object inherits from \<open>Object.prototype\<close>.\<close>

definition object_prototype_names :: "string list" where
  "object_prototype_names =
     [''constructor'', ''hasOwnProperty'', ''isPrototypeOf'', ''propertyIsEnumerable'',
      ''toLocaleString'', ''toString'', ''valueOf'', ''__proto__'',
      ''__defineGetter__'', ''__defineSetter__'', ''__lookupGetter__'', ''__lookupSetter__'']"

text \<open>
  A read that reaches \<open>Object.prototype\<close>: \<open>__proto__\<close> is an accessor whose getter
  returns the prototype of the object the read started from; the other names are functions.
\<close>

definition object_prototype_get :: "person option \<Rightarrow> string \<Rightarrow> val" where
  "object_prototype_get receiver_proto k =
     (if k = ''__proto__'' then
        (case receiver_proto of None \<Rightarrow> ObjectPrototype | Some q \<Rightarrow> PersonV q)
      else if k \<in> set object_prototype_names then Builtin k
      else Undefined)"

text \<open>\<open>obj[k]\<close>: the own property, else the prototype chain.\<close>

definition js_get :: "store \<Rightarrow> string \<Rightarrow> val" where
  "js_get s k =
     (case map_of (props s) k of
        Some p \<Rightarrow> PersonV p
      | None \<Rightarrow>
          (case proto s of
             None \<Rightarrow> object_prototype_get None k
           | Some q \<Rightarrow>
               (case map_of (person_own q) k of
                  Some v \<Rightarrow> v
                | None \<Rightarrow> object_prototype_get (Some q) k)))"

text \<open>
  \<open>obj[k] = p\<close>: an own property is overwritten; otherwise the key \<open>__proto__\<close> reaches the
  setter of \<open>Object.prototype\<close>, which makes \<open>p\<close> the prototype of \<open>obj\<close>; any other key
  becomes a new own property, after the existing ones.
\<close>

definition js_set :: "store \<Rightarrow> string \<Rightarrow> person \<Rightarrow> store" where
  "js_set s k p =
     (if map_of (props s) k = None \<and> k = ''__proto__''
      then s\<lparr>proto := Some p\<rparr>
      else s\<lparr>props := AList.update k p (props s)\<rparr>)"

section \<open>Enumeration of the own properties\<close>

text \<open>
  \<open>Object.keys\<close> and \<open>Object.assign\<close> visit the own properties in the order of the
  language: the keys that are array indices (canonical decimal numerals below
  \<open>2^32 - 1\<close>) in ascending numeric order, then the other keys in creation order.
\<close>

definition is_digit :: "char \<Rightarrow> bool" where
  "is_digit c \<longleftrightarrow> (48::nat) \<le> of_char c \<and> of_char c \<le> (57::nat)"

definition decimal :: "string \<Rightarrow> nat" where
  "decimal k = foldl (\<lambda>n c. 10 * n + (of_char c - 48)) 0 k"

definition is_array_index :: "string \<Rightarrow> bool" where
  "is_array_index k \<longleftrightarrow>
     k \<noteq> [] \<and> list_all is_digit k \<and> (if hd k = CHR ''0'' then k = ''0'' else True) \<and>
     decimal k < 4294967295"

definition own_entries :: "store \<Rightarrow> (string \<times> person) list" where
  "own_entries s =
     sort_key (\<lambda>e. decimal (fst e)) (filter (\<lambda>e. is_array_index (fst e)) (props s)) @
     filter (\<lambda>e. \<not> is_array_index (fst e)) (props s)"

definition Object_keys :: "store \<Rightarrow> string list" where
  "Object_keys s = map fst (own_entries s)"

section \<open>The heap and the API instances\<close>

text \<open>
  The repositories are mutable objects reached through references, so they live in a heap:
  an address is a position in the list, and the literal \<open>{}\<close> allocates at the end.
\<close>

type_synonym addr = nat
type_synonym heap = "store list"

definition new_object :: "heap \<Rightarrow> addr \<times> heap" where
  "new_object h = (length h, h @ [empty_object])"

definition heap_set :: "heap \<Rightarrow> addr \<Rightarrow> string \<Rightarrow> person \<Rightarrow> heap" where
  "heap_set h a k p = h[a := js_set (h ! a) k p]"

text \<open>
  An API instance is an object whose field \<open>people\<close> refers to its repository. The four
  object literals \<open>v1ApiInstance\<close> .. \<open>v4ApiInstance\<close> give \<open>getPerson\<close> and \<open>addPerson\<close>
  the same bodies: \<open>return this.people[id]\<close> and \<open>this.people[person.id] = person\<close>.
  \<open>allPerson\<close> of version 2 returns the repository itself.
\<close>

record api =
  people :: addr

definition getPerson :: "api \<Rightarrow> string \<Rightarrow> heap \<Rightarrow> val" where
  "getPerson this i h = js_get (h ! people this) i"

definition addPerson :: "api \<Rightarrow> person \<Rightarrow> heap \<Rightarrow> heap" where
  "addPerson this p h = heap_set h (people this) (p_id p) p"

definition allPerson :: "api \<Rightarrow> heap \<Rightarrow> addr" where
  "allPerson this h = people this"

text \<open>\<open>people: {}\<close> in the literals of versions 1 and 3.\<close>

definition v1ApiInstance :: "heap \<Rightarrow> api \<times> heap" where
  "v1ApiInstance h = (let (a, h') = new_object h in (\<lparr>people = a\<rparr>, h'))"

definition v3ApiInstance :: "heap \<Rightarrow> api \<times> heap" where
  "v3ApiInstance h = (let (a, h') = new_object h in (\<lparr>people = a\<rparr>, h'))"

section \<open>The two migrations\<close>

text \<open>
  \<open>Object.assign(target, source)\<close> writes every own property of \<open>source\<close> to \<open>target\<close>
  with an ordinary assignment. Version 2 starts from
  \<open>people: Object.assign({}, v1ApiInstance.people)\<close>. The copy is shallow: the two
  repositories are different objects that refer to the same persons.
\<close>

definition Object_assign :: "heap \<Rightarrow> addr \<Rightarrow> addr \<Rightarrow> heap" where
  "Object_assign h target source =
     fold (\<lambda>(k, p) h'. heap_set h' target k p) (own_entries (h ! source)) h"

definition v2ApiInstance :: "api \<Rightarrow> heap \<Rightarrow> api \<times> heap" where
  "v2ApiInstance v1 h =
     (let (a, h') = new_object h
      in (\<lparr>people = a\<rparr>, Object_assign h' a (people v1)))"

text \<open>
  \<open>new Date(t)\<close> for a number \<open>t\<close>: a time value beyond 8.64e15 milliseconds gives an
  invalid date.
\<close>

definition new_Date :: "int \<Rightarrow> date" where
  "new_Date t = (if \<bar>t\<bar> \<le> 8640000000000000 then Date t else InvalidDate)"

text \<open>
  \<open>Object.assign({}, person, { birth: new Date(new Date() - 10 * 60 * 60 * 24 * 365) })\<close>.
  The first argument is what \<open>new Date()\<close> reads from the system clock at the call.
\<close>

definition v3PersonTov4Person :: "int \<Rightarrow> person \<Rightarrow> person" where
  "v3PersonTov4Person now person =
     person\<lparr>p_birth := Some (new_Date (now - 10 * 60 * 60 * 24 * 365))\<rparr>"

text \<open>
  The body of the \<open>reduce\<close> of version 4,
  \<open>people[id] = v3PersonTov4Person(v3ApiInstance.people[id]); return people\<close>, over the
  keys of the old repository. The adapter is a parameter \<open>f\<close> that may raise, so that the
  way an exception leaves the loop is part of the model: nothing catches it. \<open>clock n\<close> is
  the reading of the system clock at the \<open>n\<close>-th call of the adapter. The result is the
  exception raised, if any, and the heap.
\<close>

fun reduce_people ::
  "(int \<Rightarrow> person \<Rightarrow> 'e + person) \<Rightarrow> (nat \<Rightarrow> int) \<Rightarrow> addr \<Rightarrow> (string \<times> person) list \<Rightarrow>
   heap \<Rightarrow> 'e option \<times> heap" where
  "reduce_people f clock acc [] h = (None, h)"
| "reduce_people f clock acc ((i, p) # es) h =
     (case f (clock 0) p of
        Inl e \<Rightarrow> (Some e, h)
      | Inr q \<Rightarrow> reduce_people f (\<lambda>n. clock (Suc n)) acc es (heap_set h acc i q))"

text \<open>
  \<open>people: Object.keys(v3ApiInstance.people).reduce(..., {})\<close>: the keys are taken first,
  then the accumulator \<open>{}\<close> is allocated. The instance exists only if the loop returns.
\<close>

definition migrate_people ::
  "(int \<Rightarrow> person \<Rightarrow> 'e + person) \<Rightarrow> (nat \<Rightarrow> int) \<Rightarrow> api \<Rightarrow> heap \<Rightarrow> ('e + api) \<times> heap" where
  "migrate_people f clock v3 h =
     (let es = own_entries (h ! people v3);
          (a, h') = new_object h
      in case reduce_people f clock a es h' of
           (Some e, h'') \<Rightarrow> (Inl e, h'')
         | (None, h'') \<Rightarrow> (Inr \<lparr>people = a\<rparr>, h''))"

definition v4ApiInstance :: "(nat \<Rightarrow> int) \<Rightarrow> api \<Rightarrow> heap \<Rightarrow> ('e + api) \<times> heap" where
  "v4ApiInstance clock v3 h =
     migrate_people (\<lambda>now person. Inr (v3PersonTov4Person now person)) clock v3 h"

section \<open>The example of the source\<close>

text \<open>\<open>addPerson({ id: '1', name: 'fred', age: 23 })\<close> in the example workflow.\<close>

definition fred :: person where
  "fred = \<lparr>p_id = ''1'', p_name = ''fred'', p_age = 23, p_birth = None\<rparr>"

section \<open>Notions used in the statements\<close>

text \<open>
  What every repository of the program satisfies: its own keys are distinct, and
  \<open>__proto__\<close> is not among them (an assignment to that key changes the prototype).
\<close>

definition wf_store :: "store \<Rightarrow> bool" where
  "wf_store s \<longleftrightarrow> distinct (map fst (props s)) \<and> ''__proto__'' \<notin> set (map fst (props s))"

text \<open>A sequence of assignments to one object, and of \<open>addPerson\<close> calls on one repository.\<close>

definition set_all :: "(string \<times> person) list \<Rightarrow> store \<Rightarrow> store" where
  "set_all es s = fold (\<lambda>(k, p) s'. js_set s' k p) es s"

definition add_all :: "person list \<Rightarrow> store \<Rightarrow> store" where
  "add_all ps s = fold (\<lambda>p s'. js_set s' (p_id p) p) ps s"

text \<open>
  The adapter applied to every entry in turn, stopping at the first exception; and the
  entries a total adapter \<open>g\<close> produces.
\<close>

fun transform_all ::
  "(int \<Rightarrow> person \<Rightarrow> 'e + person) \<Rightarrow> (nat \<Rightarrow> int) \<Rightarrow> (string \<times> person) list \<Rightarrow>
   'e + (string \<times> person) list" where
  "transform_all f clock [] = Inr []"
| "transform_all f clock ((i, p) # es) =
     (case f (clock 0) p of
        Inl e \<Rightarrow> Inl e
      | Inr q \<Rightarrow>
          (case transform_all f (\<lambda>n. clock (Suc n)) es of
             Inl e \<Rightarrow> Inl e
           | Inr qs \<Rightarrow> Inr ((i, q) # qs)))"

definition transformed ::
  "(int \<Rightarrow> person \<Rightarrow> person) \<Rightarrow> (nat \<Rightarrow> int) \<Rightarrow> (string \<times> person) list \<Rightarrow>
   (string \<times> person) list" where
  "transformed g clock es = map (\<lambda>(n, (i, p)). (i, g (clock n) p)) (enumerate 0 es)"

text \<open>
  Modelled from the spec: the error \<open>RecordMigrationError{recordId, cause}\<close> of section 4.4,
  which no code of the repository declares, beside an ordinary \<open>Error\<close> with its message.
\<close>

datatype thrown = Error string | RecordMigrationError string thrown

section \<open>The compatibility checker and the migration registry of the specification\<close>

text \<open>
  Modelled from the spec: the field kinds of section 3 (string, number, boolean, date,
  nested record, array) and the integer of the widening example in section 4.2. The
  repository has no schema descriptors: its compatibility check is the type checker run on
  the assignments between the control instances.
\<close>

datatype kind = KString | KNumber | KInteger | KBoolean | KDate | KNestedRecord | KArray

text \<open>
  Modelled from the spec: the FieldDescriptor of section 3 (name, kind, optionality), with
  the default that section 4.2 asks about for added fields.
\<close>

record FieldDescriptor =
  fd_name :: string
  fd_kind :: kind
  fd_optional :: bool
  fd_has_default :: bool

text \<open>
  Modelled from the spec: a schema version maps field names to descriptors (section 3).
\<close>

type_synonym schema = "FieldDescriptor list"

text \<open>
  Modelled from the spec: the FieldIncompatibility of sections 4.2 and 7, one constructor
  for each way section 4.2 lets a field break compatibility.
\<close>

datatype FieldIncompatibility =
    FieldRemoved string
  | KindNarrowed string
  | OptionalityNarrowed string
  | BreakingAddition string

text \<open>
  Modelled from the spec: "a kind that is equal or wider (e.g., number contains integer)".
\<close>

definition kind_accepts :: "kind \<Rightarrow> kind \<Rightarrow> bool" where
  "kind_accepts older newer \<longleftrightarrow> newer = older \<or> (older = KInteger \<and> newer = KNumber)"

text \<open>Modelled from the spec: the descriptor a schema gives a field name.\<close>

definition find_field :: "schema \<Rightarrow> string \<Rightarrow> FieldDescriptor option" where
  "find_field sch n = find (\<lambda>f. fd_name f = n) sch"

text \<open>
  Modelled from the spec: "for every field present in older, newer must contain a field
  with the same name and a kind that is equal or wider and equal-or-more-permissive
  optionality (a field may not be removed or narrowed)".
\<close>

definition check_field :: "schema \<Rightarrow> FieldDescriptor \<Rightarrow> FieldIncompatibility list" where
  "check_field newer f =
     (case find_field newer (fd_name f) of
        None \<Rightarrow> [FieldRemoved (fd_name f)]
      | Some g \<Rightarrow>
          (if kind_accepts (fd_kind f) (fd_kind g) then [] else [KindNarrowed (fd_name f)]) @
          (if fd_optional f \<and> \<not> fd_optional g then [OptionalityNarrowed (fd_name f)] else []))"

text \<open>
  Modelled from the spec: "fields newly added in newer that are required and lack a
  default are flagged as a breaking addition".
\<close>

definition check_addition :: "schema \<Rightarrow> FieldDescriptor \<Rightarrow> FieldIncompatibility list" where
  "check_addition older g =
     (if find_field older (fd_name g) = None \<and> \<not> fd_optional g \<and> \<not> fd_has_default g
      then [BreakingAddition (fd_name g)] else [])"

text \<open>
  Modelled from the spec: "output is the complete list of incompatibilities, not just the
  first".
\<close>

definition incompatibilities :: "schema \<Rightarrow> schema \<Rightarrow> FieldIncompatibility list" where
  "incompatibilities older newer =
     concat (map (check_field newer) older) @ concat (map (check_addition older) newer)"

text \<open>
  Modelled from the spec: \<open>isBackwardCompatible(older, newer)\<close> of section 4.2, which
  succeeds or returns the list of incompatibilities.
\<close>

definition isBackwardCompatible :: "schema \<Rightarrow> schema \<Rightarrow> FieldIncompatibility list + unit" where
  "isBackwardCompatible older newer =
     (case incompatibilities older newer of [] \<Rightarrow> Inr () | e # es \<Rightarrow> Inl (e # es))"

text \<open>
  The person types of the source as schemas: \<open>v3Person\<close>, and \<open>v4Person\<close> with its
  required \<open>birth: Date\<close>; and \<open>v3Person\<close> with an optional \<open>birth\<close>.
\<close>

definition v3Person_schema :: schema where
  "v3Person_schema =
     [\<lparr>fd_name = ''id'', fd_kind = KString, fd_optional = False, fd_has_default = False\<rparr>,
      \<lparr>fd_name = ''name'', fd_kind = KString, fd_optional = False, fd_has_default = False\<rparr>,
      \<lparr>fd_name = ''age'', fd_kind = KNumber, fd_optional = False, fd_has_default = False\<rparr>]"

definition v4Person_schema :: schema where
  "v4Person_schema = v3Person_schema @
     [\<lparr>fd_name = ''birth'', fd_kind = KDate, fd_optional = False, fd_has_default = False\<rparr>]"

definition optional_birth_schema :: schema where
  "optional_birth_schema = v3Person_schema @
     [\<lparr>fd_name = ''birth'', fd_kind = KDate, fd_optional = True, fd_has_default = False\<rparr>]"

text \<open>
  Modelled from the spec: the MigrationStep of section 3, a pair of versions with a
  transform. The repository has no registry of steps.
\<close>

record 'r MigrationStep =
  fromVersion :: nat
  toVersion :: nat
  transform :: "'r \<Rightarrow> 'r"

text \<open>Modelled from the spec: the two registry errors of sections 4.3 and 7.\<close>

datatype registry_error = ChainGapError | NoPathError

text \<open>
  Modelled from the spec: \<open>registerStep(from, to, transform)\<close> of section 4.3, which
  "rejects registration if to != from + 1 or if a step for from already exists".
\<close>

definition registerStep ::
  "'r MigrationStep list \<Rightarrow> nat \<Rightarrow> nat \<Rightarrow> ('r \<Rightarrow> 'r) \<Rightarrow> registry_error + 'r MigrationStep list" where
  "registerStep reg from to t =
     (if to = from + 1 \<and> find (\<lambda>s. fromVersion s = from) reg = None
      then Inr (reg @ [\<lparr>fromVersion = from, toVersion = to, transform = t\<rparr>])
      else Inl ChainGapError)"

text \<open>
  Modelled from the spec: the steps from a version, one version at a time, \<open>n\<close> versions
  up; it "fails with NoPathError if any intermediate step is missing".
\<close>

fun chain ::
  "'r MigrationStep list \<Rightarrow> nat \<Rightarrow> nat \<Rightarrow> registry_error + 'r MigrationStep list" where
  "chain reg v 0 = Inr []"
| "chain reg v (Suc n) =
     (case find (\<lambda>s. fromVersion s = v) reg of
        None \<Rightarrow> Inl NoPathError
      | Some s \<Rightarrow>
          (case chain reg (Suc v) n of
             Inl e \<Rightarrow> Inl e
           | Inr ss \<Rightarrow> Inr (s # ss)))"

text \<open>
  Modelled from the spec: \<open>chainFrom\<close> of section 4.3 for the target version the State
  Migrator of section 4.4 asks for. No chain leads to an earlier version.
\<close>

definition chainFrom ::
  "'r MigrationStep list \<Rightarrow> nat \<Rightarrow> nat \<Rightarrow> registry_error + 'r MigrationStep list" where
  "chainFrom reg version target =
     (if target < version then Inl NoPathError else chain reg version (target - version))"

section \<open>Own properties and their enumeration\<close>

lemma mset_own_entries: "mset (own_entries s) = mset (props s)"
  by (simp add: own_entries_def)

lemma set_own_entries: "set (own_entries s) = set (props s)"
  by (metis mset_own_entries set_mset_mset)


lemma distinct_own_entries:
  "distinct (map fst (props s)) \<Longrightarrow> distinct (map fst (own_entries s))"
proof -
  assume d: "distinct (map fst (props s))"
  have "mset (map fst (own_entries s)) = mset (map fst (props s))"
    by (metis mset_map mset_own_entries)
  then show ?thesis
    using d by (metis mset_eq_imp_distinct_iff)
qed

lemma update_fresh: "k \<notin> fst ` set al \<Longrightarrow> AList.update k v al = al @ [(k, v)]"
  by (induction al) auto

lemma js_set_proto:
  "map_of (props s) ''__proto__'' = None \<Longrightarrow> js_set s ''__proto__'' p = s\<lparr>proto := Some p\<rparr>"
  by (simp add: js_set_def)

lemma js_set_own:
  "\<not> (map_of (props s) k = None \<and> k = ''__proto__'') \<Longrightarrow>
   js_set s k p = s\<lparr>props := AList.update k p (props s)\<rparr>"
  unfolding js_set_def by (simp only: if_False)

lemma wf_js_set:
  assumes "wf_store s"
  shows "wf_store (js_set s k p)"
proof (cases "map_of (props s) k = None \<and> k = ''__proto__''")
  case True
  then have k: "k = ''__proto__''" and absent: "map_of (props s) ''__proto__'' = None"
    by blast+
  have "props (js_set s k p) = props s"
    unfolding k by (simp add: js_set_proto [OF absent])
  then show ?thesis
    using assms by (simp add: wf_store_def)
next
  case False
  then have "js_set s k p = s\<lparr>props := AList.update k p (props s)\<rparr>"
    by (rule js_set_own)
  then have eq: "props (js_set s k p) = AList.update k p (props s)"
    by simp
  have fresh: "k \<noteq> ''__proto__''" if "k \<notin> set (map fst (props s))"
    using that False by (auto simp: map_of_eq_None_iff)
  have "distinct (map fst (AList.update k p (props s)))"
    using assms by (simp add: wf_store_def distinct_update)
  moreover have "''__proto__'' \<notin> set (map fst (AList.update k p (props s)))"
  proof (cases "k \<in> set (map fst (props s))")
    case True
    then show ?thesis
      using assms by (simp only: update_keys wf_store_def if_True) simp
  next
    case False
    then show ?thesis
      using assms fresh by (simp only: update_keys wf_store_def if_False) auto
  qed
  ultimately show ?thesis
    unfolding wf_store_def eq by simp
qed

lemma wf_empty_object: "wf_store empty_object"
  by (simp add: wf_store_def empty_object_def)

lemma wf_own_entries:
  assumes "wf_store s"
  shows "distinct (map fst (own_entries s))" and "''__proto__'' \<notin> fst ` set (own_entries s)"
  using assms by (simp_all add: wf_store_def distinct_own_entries set_own_entries)

section \<open>Assignments through the heap\<close>

lemma length_heap_set: "length (heap_set h a k p) = length h"
  by (simp add: heap_set_def)


lemma nth_heap_set_same: "a < length h \<Longrightarrow> heap_set h a k p ! a = js_set (h ! a) k p"
  by (simp add: heap_set_def)

lemma fold_heap_set:
  "a < length h \<Longrightarrow>
   fold (\<lambda>(k, p) h'. heap_set h' a k p) es h = h[a := set_all es (h ! a)]"
proof (induction es arbitrary: h)
  case Nil
  then show ?case by (simp add: set_all_def)
next
  case (Cons e es)
  obtain k p where e: "e = (k, p)" by (cases e)
  have "fold (\<lambda>(k, p) h'. heap_set h' a k p) (e # es) h =
        fold (\<lambda>(k, p) h'. heap_set h' a k p) es (heap_set h a k p)"
    by (simp add: e)
  also have "\<dots> = (heap_set h a k p)[a := set_all es (heap_set h a k p ! a)]"
    using Cons.prems by (intro Cons.IH) (simp add: length_heap_set)
  also have "\<dots> = h[a := set_all (e # es) (h ! a)]"
    using Cons.prems by (simp add: heap_set_def set_all_def e)
  finally show ?case .
qed

lemma set_all_fresh:
  "distinct (map fst es) \<Longrightarrow> ''__proto__'' \<notin> fst ` set es \<Longrightarrow>
   fst ` set es \<inter> fst ` set (props s) = {} \<Longrightarrow>
   set_all es s = s\<lparr>props := props s @ es\<rparr>"
proof (induction es arbitrary: s)
  case Nil
  then show ?case by (simp add: set_all_def)
next
  case (Cons e es)
  obtain k p where e: "e = (k, p)" by (cases e)
  have k: "k \<noteq> ''__proto__''" "k \<notin> fst ` set (props s)" "k \<notin> fst ` set es"
    using Cons.prems by (auto simp: e)
  have step: "js_set s k p = s\<lparr>props := props s @ [(k, p)]\<rparr>"
    using k by (simp add: js_set_def update_fresh)
  have "set_all (e # es) s = set_all es (js_set s k p)"
    by (simp add: set_all_def e)
  also have "\<dots> = (js_set s k p)\<lparr>props := props (js_set s k p) @ es\<rparr>"
    using Cons.prems k by (intro Cons.IH) (auto simp: step e)
  also have "\<dots> = s\<lparr>props := props s @ e # es\<rparr>"
    by (simp add: step e)
  finally show ?case .
qed

lemma set_all_empty:
  "distinct (map fst es) \<Longrightarrow> ''__proto__'' \<notin> fst ` set es \<Longrightarrow>
   set_all es empty_object = \<lparr>props = es, proto = None\<rparr>"
  by (simp add: set_all_fresh empty_object_def)

lemma fold_addPerson:
  "people this < length h \<Longrightarrow>
   fold (addPerson this) ps h = h[people this := add_all ps (h ! people this)]"
proof (induction ps arbitrary: h)
  case Nil
  then show ?case by (simp add: add_all_def)
next
  case (Cons p ps)
  have "fold (addPerson this) (p # ps) h = fold (addPerson this) ps (addPerson this p h)"
    by simp
  also have "\<dots> = (addPerson this p h)[people this :=
                      add_all ps (addPerson this p h ! people this)]"
    using Cons.prems by (intro Cons.IH) (simp add: addPerson_def heap_set_def)
  also have "\<dots> = h[people this := add_all (p # ps) (h ! people this)]"
    using Cons.prems by (simp add: addPerson_def heap_set_def add_all_def)
  finally show ?case .
qed

lemma add_all_absent:
  "map_of (props s) i = None \<Longrightarrow> proto s = None \<Longrightarrow>
   \<forall>p\<in>set ps. p_id p \<noteq> i \<and> p_id p \<noteq> ''__proto__'' \<Longrightarrow>
   map_of (props (add_all ps s)) i = None \<and> proto (add_all ps s) = None"
proof (induction ps arbitrary: s)
  case Nil
  then show ?case by (simp add: add_all_def)
next
  case (Cons p ps)
  have k: "p_id p \<noteq> i" "p_id p \<noteq> ''__proto__''"
    using Cons.prems(3) by simp_all
  have step: "js_set s (p_id p) p = s\<lparr>props := AList.update (p_id p) p (props s)\<rparr>"
    using k(2) by (simp add: js_set_def)
  have "map_of (props (js_set s (p_id p) p)) i = None"
    using Cons.prems(1) k(1) by (simp add: step update_conv')
  moreover have "proto (js_set s (p_id p) p) = None"
    using Cons.prems(2) by (simp add: step)
  ultimately have "map_of (props (add_all ps (js_set s (p_id p) p))) i = None \<and>
                   proto (add_all ps (js_set s (p_id p) p)) = None"
    using Cons.prems(3) by (intro Cons.IH) simp_all
  then show ?case by (simp add: add_all_def)
qed

section \<open>The loop of the migration\<close>


lemma reduce_people_Inr:
  "a < length h \<Longrightarrow> transform_all f clock es = Inr qs \<Longrightarrow>
   reduce_people f clock a es h = (None, h[a := set_all qs (h ! a)])"
proof (induction es arbitrary: clock h qs)
  case Nil
  then show ?case by (simp add: set_all_def)
next
  case (Cons e es)
  obtain i p where e: "e = (i, p)" by (cases e)
  from Cons.prems(2) obtain q qs' where
    q: "f (clock 0) p = Inr q" and
    qs': "transform_all f (\<lambda>n. clock (Suc n)) es = Inr qs'" and
    qs: "qs = (i, q) # qs'"
    by (auto simp: e split: sum.splits)
  have "reduce_people f clock a (e # es) h =
        reduce_people f (\<lambda>n. clock (Suc n)) a es (heap_set h a i q)"
    by (simp add: e q)
  also have "\<dots> = (None, (heap_set h a i q)[a := set_all qs' (heap_set h a i q ! a)])"
    using Cons.prems(1) qs' by (intro Cons.IH) (simp_all add: length_heap_set)
  also have "\<dots> = (None, h[a := set_all qs (h ! a)])"
    using Cons.prems(1) by (simp add: heap_set_def set_all_def qs)
  finally show ?case .
qed


lemma transform_all_Inr:
  "transform_all f clock es = Inr qs \<Longrightarrow>
   map fst qs = map fst es \<and>
   (\<forall>n<length es. f (clock n) (snd (es ! n)) = Inr (snd (qs ! n)))"
proof (induction es arbitrary: clock qs)
  case Nil
  then show ?case by simp
next
  case (Cons x es)
  obtain i p where x: "x = (i, p)" by (cases x)
  from Cons.prems obtain q qs' where
    q: "f (clock 0) p = Inr q" and
    qs': "transform_all f (\<lambda>n. clock (Suc n)) es = Inr qs'" and
    qs: "qs = (i, q) # qs'"
    by (auto simp: x split: sum.splits)
  have IH: "map fst qs' = map fst es \<and>
            (\<forall>n<length es. f (clock (Suc n)) (snd (es ! n)) = Inr (snd (qs' ! n)))"
    using Cons.IH [OF qs'] by simp
  show ?case
  proof (intro conjI allI impI)
    show "map fst qs = map fst (x # es)"
      using IH by (simp add: qs x)
  next
    fix n
    assume "n < length (x # es)"
    then show "f (clock n) (snd ((x # es) ! n)) = Inr (snd (qs ! n))"
      using IH q by (cases n) (simp_all add: qs x)
  qed
qed



lemma transformed_Cons:
  "transformed g clock ((i, p) # es) = (i, g (clock 0) p) # transformed g (\<lambda>n. clock (Suc n)) es"
  by (simp add: transformed_def enumerate_Suc_eq split_def)

lemma transform_all_total:
  "transform_all (\<lambda>now person. Inr (g now person)) clock es = Inr (transformed g clock es)"
proof (induction es arbitrary: clock)
  case Nil
  then show ?case by (simp add: transformed_def)
next
  case (Cons x es)
  obtain i p where x: "x = (i, p)" by (cases x)
  show ?case
    by (simp add: x Cons.IH transformed_Cons)
qed





section \<open>What the two migrations return\<close>

lemma transform_all_keys:
  "transform_all f clock es = Inr qs \<Longrightarrow> map fst qs = map fst es"
  using transform_all_Inr by blast

lemma new_store_of_entries:
  assumes "wf_store s" and "map fst qs = map fst (own_entries s)"
  shows "set_all qs empty_object = \<lparr>props = qs, proto = None\<rparr>"
proof -
  have "distinct (map fst qs)"
    using assms wf_own_entries(1) by simp
  moreover have "''__proto__'' \<notin> fst ` set qs"
    using assms wf_own_entries(2) by (metis set_map)
  ultimately show ?thesis
    by (rule set_all_empty)
qed

lemma v2ApiInstance_eq:
  assumes "people v1 < length h" and "wf_store (h ! people v1)"
  shows "v2ApiInstance v1 h =
         (\<lparr>people = length h\<rparr>, h @ [\<lparr>props = own_entries (h ! people v1), proto = None\<rparr>])"
proof -
  let ?es = "own_entries (h ! people v1)"
  have src: "(h @ [empty_object]) ! people v1 = h ! people v1"
    using assms(1) by (simp add: nth_append)
  have "Object_assign (h @ [empty_object]) (length h) (people v1) =
        (h @ [empty_object])[length h := set_all ?es ((h @ [empty_object]) ! length h)]"
    unfolding Object_assign_def src by (rule fold_heap_set) simp
  also have "\<dots> = h @ [set_all ?es empty_object]"
    by simp
  also have "set_all ?es empty_object = \<lparr>props = ?es, proto = None\<rparr>"
    using assms(2) by (rule new_store_of_entries) simp
  finally show ?thesis
    by (simp add: v2ApiInstance_def new_object_def)
qed

lemma migrate_people_Inr:
  assumes "people v3 < length h" and "wf_store (h ! people v3)"
    and "transform_all f clock (own_entries (h ! people v3)) = Inr qs"
  shows "migrate_people f clock v3 h =
         (Inr \<lparr>people = length h\<rparr>, h @ [\<lparr>props = qs, proto = None\<rparr>])"
proof -
  let ?es = "own_entries (h ! people v3)"
  have "reduce_people f clock (length h) ?es (h @ [empty_object]) =
        (None, (h @ [empty_object])[length h := set_all qs ((h @ [empty_object]) ! length h)])"
    using assms(3) by (intro reduce_people_Inr) simp_all
  also have "(h @ [empty_object])[length h := set_all qs ((h @ [empty_object]) ! length h)] =
             h @ [set_all qs empty_object]"
    by simp
  also have "set_all qs empty_object = \<lparr>props = qs, proto = None\<rparr>"
    using assms(2) transform_all_keys [OF assms(3)] by (rule new_store_of_entries)
  finally show ?thesis
    by (simp add: migrate_people_def new_object_def)
qed


lemma v4ApiInstance_eq:
  assumes "people v3 < length h" and "wf_store (h ! people v3)"
  shows "v4ApiInstance clock v3 h =
         (Inr \<lparr>people = length h\<rparr>,
          h @ [\<lparr>props = transformed v3PersonTov4Person clock (own_entries (h ! people v3)),
                proto = None\<rparr>])"
  unfolding v4ApiInstance_def
  using assms by (rule migrate_people_Inr) (rule transform_all_total)


text \<open>The repositories the program creates are well formed, and \<open>addPerson\<close> keeps them so.\<close>

lemma wf_addPerson:
  "people this < length h \<Longrightarrow> wf_store (h ! people this) \<Longrightarrow>
   wf_store (addPerson this p h ! people this)"
  by (simp add: addPerson_def heap_set_def wf_js_set)

lemma wf_v1ApiInstance: "wf_store (snd (v1ApiInstance h) ! people (fst (v1ApiInstance h)))"
  by (simp add: v1ApiInstance_def new_object_def wf_empty_object)

lemma wf_v3ApiInstance: "wf_store (snd (v3ApiInstance h) ! people (fst (v3ApiInstance h)))"
  by (simp add: v3ApiInstance_def new_object_def wf_empty_object)

lemma wf_entries:
  "wf_store s \<Longrightarrow> map fst qs = map fst (own_entries s) \<Longrightarrow>
   wf_store \<lparr>props = qs, proto = None\<rparr>"
  using wf_own_entries [of s] by (simp add: wf_store_def)

lemma wf_v2ApiInstance:
  assumes "people v1 < length h" and "wf_store (h ! people v1)"
  shows "wf_store (snd (v2ApiInstance v1 h) ! people (fst (v2ApiInstance v1 h)))"
  using wf_entries [OF assms(2) refl] by (simp add: v2ApiInstance_eq [OF assms])

lemma wf_v4ApiInstance:
  assumes "people v3 < length h" and "wf_store (h ! people v3)"
  shows "wf_store (snd (v4ApiInstance clock v3 h) ! length h)"
proof -
  have "map fst (transformed v3PersonTov4Person clock (own_entries (h ! people v3))) =
        map fst (own_entries (h ! people v3))"
    using transform_all_keys [OF transform_all_total] .
  from wf_entries [OF assms(2) this] show ?thesis
    by (simp add: v4ApiInstance_eq [OF assms])
qed

section \<open>Evaluation of the examples\<close>

lemmas eval_defs =
  v1ApiInstance_def v3ApiInstance_def v2ApiInstance_def new_object_def empty_object_def
  addPerson_def getPerson_def allPerson_def heap_set_def js_set_def js_get_def
  Object_assign_def Object_keys_def own_entries_def is_array_index_def is_digit_def decimal_def
  fred_def wf_store_def object_prototype_get_def object_prototype_names_def person_own_def
  v4ApiInstance_def migrate_people_def v3PersonTov4Person_def new_Date_def

text \<open>
  The example workflow in the order of the source: the literal of version 2 is evaluated
  before \<open>addPerson\<close> is called on version 1, so the repository it copies is still empty.
\<close>

lemma example_workflow:
  "(let (v1, h1) = v1ApiInstance [];
        (v2, h2) = v2ApiInstance v1 h1;
        h3 = addPerson v1 fred h2
    in h3 ! people v1 = \<lparr>props = [(''1'', fred)], proto = None\<rparr> \<and>
       h3 ! allPerson v2 h3 = \<lparr>props = [], proto = None\<rparr> \<and>
       getPerson v2 ''1'' h3 = Undefined)"
  by (simp add: eval_defs)

text \<open>
  A person added under the id \<open>__proto__\<close> becomes the prototype of the repository: it is
  read back, its fields show through under their names, and it is no own property, so
  neither migration carries it over.
\<close>

lemma person_under_proto:
  "(let (v1, h1) = v1ApiInstance [];
        h2 = addPerson v1 (fred\<lparr>p_id := ''__proto__''\<rparr>) h1;
        (v2, h3) = v2ApiInstance v1 h2
    in getPerson v1 ''__proto__'' h3 = PersonV (fred\<lparr>p_id := ''__proto__''\<rparr>) \<and>
       getPerson v1 ''name'' h3 = Str ''fred'' \<and>
       Object_keys (h3 ! people v1) = [] \<and>
       getPerson v2 ''__proto__'' h3 = ObjectPrototype)"
  by (simp add: eval_defs)

text \<open>Keys that are array indices come first, in numeric order.\<close>

lemma Object_keys_order:
  "Object_keys \<lparr>props = [(''b'', fred), (''10'', fred), (''9'', fred), (''a'', fred)],
                proto = None\<rparr> = [''9'', ''10'', ''b'', ''a'']"
  by (simp add: Object_keys_def own_entries_def is_array_index_def is_digit_def decimal_def)

section \<open>The claims about the migrations\<close>











text \<open>
  C5. The repository of version 1 holds fred under the key 1; the copy of version 2 holds
  the same record under the same key, in a different object, which \<open>allPerson\<close> and
  \<open>getPerson\<close> of version 2 read; the repository of version 1 is as it was.
\<close>

theorem v1_to_v2_example:
  "(let (v1, h1) = v1ApiInstance [];
        h2 = addPerson v1 fred h1;
        (v2, h3) = v2ApiInstance v1 h2
    in h2 ! people v1 = \<lparr>props = [(''1'', fred)], proto = None\<rparr> \<and>
       h3 ! people v2 = \<lparr>props = [(''1'', fred)], proto = None\<rparr> \<and>
       h3 ! allPerson v2 h3 = \<lparr>props = [(''1'', fred)], proto = None\<rparr> \<and>
       getPerson v2 ''1'' h3 = PersonV fred \<and>
       people v2 \<noteq> people v1 \<and>
       h3 ! people v1 = \<lparr>props = [(''1'', fred)], proto = None\<rparr>)"
  by (simp add: eval_defs)

section \<open>The claims about the two methods\<close>

lemma map_of_person_own_proto: "map_of (person_own p) ''__proto__'' = None"
  by (simp add: person_own_def split: option.split)

lemma js_get_js_set_same: "js_get (js_set s k p) k = PersonV p"
proof (cases "map_of (props s) k = None \<and> k = ''__proto__''")
  case True
  then have k: "k = ''__proto__''" and absent: "map_of (props s) ''__proto__'' = None"
    by blast+
  have "js_get (js_set s ''__proto__'' p) ''__proto__'' = PersonV p"
    using absent
    by (simp add: js_set_proto js_get_def map_of_person_own_proto object_prototype_get_def)
  then show ?thesis
    using k by simp
next
  case False
  then have "js_set s k p = s\<lparr>props := AList.update k p (props s)\<rparr>"
    by (rule js_set_own)
  then show ?thesis
    by (simp add: js_get_def update_conv')
qed

text \<open>
  C9. On any of the API instances, \<open>addPerson(p)\<close> followed by \<open>getPerson(p.id)\<close> returns
  \<open>p\<close>: the record is stored under its own \<open>id\<close> and read back under that key.
\<close>

theorem addPerson_getPerson:
  assumes "people this < length h"
  shows "getPerson this (p_id p) (addPerson this p h) = PersonV p"
  using assms by (simp add: getPerson_def addPerson_def heap_set_def js_get_js_set_same)

text \<open>C9 on a new instance of version 1 and fred.\<close>

theorem addPerson_getPerson_witness:
  "people (fst (v1ApiInstance [])) < length (snd (v1ApiInstance [])) \<and>
   getPerson (fst (v1ApiInstance [])) (p_id fred)
     (addPerson (fst (v1ApiInstance [])) fred (snd (v1ApiInstance []))) = PersonV fred"
proof -
  have valid: "people (fst (v1ApiInstance [])) < length (snd (v1ApiInstance []))"
    by (simp add: v1ApiInstance_def new_object_def)
  show ?thesis
    using valid addPerson_getPerson [OF valid, of fred] by simp
qed

text \<open>
  C10 fails as stated: on a new instance, to which nothing was added, \<open>getPerson\<close> with the
  name of an inherited property returns that property, a function, not \<open>undefined\<close>.
\<close>

theorem getPerson_inherited_counterexample:
  "getPerson (fst (v1ApiInstance [])) ''toString'' (snd (v1ApiInstance [])) = Builtin ''toString'' \<and>
   getPerson (fst (v1ApiInstance [])) ''toString'' (snd (v1ApiInstance [])) \<noteq> Undefined"
  by (simp add: eval_defs)

text \<open>
  C10 as amended. On a repository that has no own property \<open>i\<close> and the prototype of an
  object literal, after any calls of \<open>addPerson\<close> with ids other than \<open>i\<close> and
  \<open>__proto__\<close>, \<open>getPerson(i)\<close> returns, without raising, \<open>undefined\<close> unless \<open>i\<close> names a
  property inherited from \<open>Object.prototype\<close>, which it then returns.
\<close>

theorem getPerson_never_added:
  assumes "people this < length h"
    and "map_of (props (h ! people this)) i = None"
    and "proto (h ! people this) = None"
    and "\<forall>p\<in>set ps. p_id p \<noteq> i \<and> p_id p \<noteq> ''__proto__''"
  shows "getPerson this i (fold (addPerson this) ps h) =
         (if i = ''__proto__'' then ObjectPrototype
          else if i \<in> set object_prototype_names then Builtin i
          else Undefined)"
proof -
  let ?s = "add_all ps (h ! people this)"
  have "map_of (props ?s) i = None \<and> proto ?s = None"
    using assms(2-4) by (rule add_all_absent)
  then have "js_get ?s i = object_prototype_get None i"
    by (simp add: js_get_def)
  then show ?thesis
    using assms(1) by (simp add: getPerson_def fold_addPerson object_prototype_get_def)
qed

text \<open>
  C10 as amended, on a new instance of version 1 to which fred was added: the id 2 reads
  \<open>undefined\<close>.
\<close>

theorem getPerson_never_added_witness:
  "people (fst (v1ApiInstance [])) < length (snd (v1ApiInstance [])) \<and>
   p_id fred \<noteq> ''2'' \<and> p_id fred \<noteq> ''__proto__'' \<and>
   getPerson (fst (v1ApiInstance [])) ''2''
     (fold (addPerson (fst (v1ApiInstance []))) [fred] (snd (v1ApiInstance []))) = Undefined"
proof -
  have valid: "people (fst (v1ApiInstance [])) < length (snd (v1ApiInstance []))"
    by (simp add: eval_defs)
  have absent: "map_of (props (snd (v1ApiInstance []) ! people (fst (v1ApiInstance [])))) ''2'' = None"
    by (simp add: eval_defs)
  have plain: "proto (snd (v1ApiInstance []) ! people (fst (v1ApiInstance []))) = None"
    by (simp add: eval_defs)
  have others: "\<forall>p\<in>set [fred]. p_id p \<noteq> ''2'' \<and> p_id p \<noteq> ''__proto__''"
    by (simp add: fred_def)
  have "getPerson (fst (v1ApiInstance [])) ''2''
          (fold (addPerson (fst (v1ApiInstance []))) [fred] (snd (v1ApiInstance []))) = Undefined"
    using getPerson_never_added [OF valid absent plain others]
    by (simp add: object_prototype_names_def)
  then show ?thesis
    using valid by (simp add: fred_def)
qed

section \<open>The claims about the compatibility checker\<close>

lemma find_field_None: "find_field sch n = None \<longleftrightarrow> n \<notin> fd_name ` set sch"
  by (auto simp: find_field_def find_None_iff)

lemma find_field_distinct:
  "distinct (map fd_name sch) \<Longrightarrow> f \<in> set sch \<Longrightarrow> find_field sch (fd_name f) = Some f"
proof (induction sch)
  case Nil
  then show ?case by simp
next
  case (Cons g sch)
  then show ?case
    by (auto simp: find_field_def)
qed

lemma kind_accepts_refl: "kind_accepts k k"
  by (simp add: kind_accepts_def)

lemma in_incompatibilities:
  "x \<in> set (incompatibilities A B) \<longleftrightarrow>
   (\<exists>f. f \<in> set A \<and> x \<in> set (check_field B f)) \<or>
   (\<exists>g. g \<in> set B \<and> x \<in> set (check_addition A g))"
  unfolding incompatibilities_def by (simp only: set_append set_concat set_map Un_iff UN_iff) blast

lemma FieldRemoved_in_check_field:
  "FieldRemoved n \<in> set (check_field B f) \<longleftrightarrow> fd_name f = n \<and> find_field B n = None"
  by (cases "find_field B (fd_name f)") (auto simp: check_field_def)

lemma KindNarrowed_in_check_field:
  "KindNarrowed n \<in> set (check_field B f) \<longleftrightarrow>
   fd_name f = n \<and> (\<exists>g. find_field B n = Some g \<and> \<not> kind_accepts (fd_kind f) (fd_kind g))"
  by (cases "find_field B (fd_name f)") (auto simp: check_field_def)

lemma OptionalityNarrowed_in_check_field:
  "OptionalityNarrowed n \<in> set (check_field B f) \<longleftrightarrow>
   fd_name f = n \<and> (\<exists>g. find_field B n = Some g \<and> fd_optional f \<and> \<not> fd_optional g)"
  by (cases "find_field B (fd_name f)") (auto simp: check_field_def)

lemma BreakingAddition_in_check_field: "BreakingAddition n \<notin> set (check_field B f)"
  by (cases "find_field B (fd_name f)") (auto simp: check_field_def)

lemma in_check_addition:
  "x \<in> set (check_addition A g) \<longleftrightarrow>
   x = BreakingAddition (fd_name g) \<and> find_field A (fd_name g) = None \<and>
   \<not> fd_optional g \<and> \<not> fd_has_default g"
  by (simp add: check_addition_def)

lemmas schema_defs =
  v3Person_schema_def v4Person_schema_def optional_birth_schema_def isBackwardCompatible_def
  incompatibilities_def check_field_def check_addition_def find_field_def kind_accepts_def

text \<open>
  The program's own step from \<open>v3Person\<close> to \<open>v4Person\<close> adds the required \<open>birth\<close>,
  which the checker of the specification reports, as the type checker does in the source.
\<close>

lemma v3Person_to_v4Person:
  "isBackwardCompatible v3Person_schema v4Person_schema = Inl [BreakingAddition ''birth'']"
  by (simp add: schema_defs)

text \<open>
  C6. If the newer schema keeps every field of the older one as it is, and every field it
  adds is optional, the check succeeds.
\<close>

theorem adding_optional_fields_compatible:
  assumes "distinct (map fd_name B)"
    and "set A \<subseteq> set B"
    and "\<forall>g\<in>set B. g \<notin> set A \<longrightarrow> fd_optional g"
  shows "isBackwardCompatible A B = Inr ()"
proof -
  have kept: "check_field B f = []" if "f \<in> set A" for f
  proof -
    have "find_field B (fd_name f) = Some f"
      using assms(1,2) that by (intro find_field_distinct) auto
    then show ?thesis
      by (simp add: check_field_def kind_accepts_refl)
  qed
  have added: "check_addition A g = []" if "g \<in> set B" for g
  proof (cases "g \<in> set A")
    case True
    then have "find_field A (fd_name g) \<noteq> None"
      by (auto simp: find_field_None)
    then show ?thesis
      by (simp add: check_addition_def)
  next
    case False
    then have "fd_optional g"
      using assms(3) that by blast
    then show ?thesis
      by (simp add: check_addition_def)
  qed
  have "concat (map (check_field B) A) = []"
    using kept by simp
  moreover have "concat (map (check_addition A) B) = []"
    using added by simp
  ultimately have "incompatibilities A B = []"
    unfolding incompatibilities_def by (simp only: append_Nil)
  then show ?thesis
    by (simp only: isBackwardCompatible_def list.case)
qed

text \<open>C6 at \<open>v3Person\<close> and \<open>v3Person\<close> with an optional \<open>birth\<close>.\<close>

theorem adding_optional_fields_compatible_witness:
  "distinct (map fd_name optional_birth_schema) \<and>
   set v3Person_schema \<subseteq> set optional_birth_schema \<and>
   isBackwardCompatible v3Person_schema optional_birth_schema = Inr ()"
proof -
  have names: "distinct (map fd_name optional_birth_schema)"
    by (simp add: v3Person_schema_def optional_birth_schema_def)
  have kept: "set v3Person_schema \<subseteq> set optional_birth_schema"
    by (auto simp: optional_birth_schema_def)
  have added: "\<forall>g\<in>set optional_birth_schema. g \<notin> set v3Person_schema \<longrightarrow> fd_optional g"
    by (auto simp: v3Person_schema_def optional_birth_schema_def)
  show ?thesis
    using names kept adding_optional_fields_compatible [OF names kept added] by simp
qed

text \<open>
  C7. If a field of the older schema has no field of that name in the newer one, the check
  fails, the list names the removed field, and the list holds every incompatibility of the
  two schemas: every removed field, every narrowed kind, every narrowed optionality and
  every breaking addition, and nothing else.
\<close>

theorem removed_field_reported:
  assumes "f \<in> set A" and "fd_name f \<notin> fd_name ` set B"
  shows "\<exists>errs. isBackwardCompatible A B = Inl errs \<and>
           FieldRemoved (fd_name f) \<in> set errs \<and>
           (\<forall>n. FieldRemoved n \<in> set errs \<longleftrightarrow>
              (\<exists>a. a \<in> set A \<and> fd_name a = n \<and> find_field B n = None)) \<and>
           (\<forall>n. KindNarrowed n \<in> set errs \<longleftrightarrow>
              (\<exists>a b. a \<in> set A \<and> fd_name a = n \<and> find_field B n = Some b \<and>
                 \<not> kind_accepts (fd_kind a) (fd_kind b))) \<and>
           (\<forall>n. OptionalityNarrowed n \<in> set errs \<longleftrightarrow>
              (\<exists>a b. a \<in> set A \<and> fd_name a = n \<and> find_field B n = Some b \<and>
                 fd_optional a \<and> \<not> fd_optional b)) \<and>
           (\<forall>n. BreakingAddition n \<in> set errs \<longleftrightarrow>
              (\<exists>b. b \<in> set B \<and> fd_name b = n \<and> find_field A n = None \<and>
                 \<not> fd_optional b \<and> \<not> fd_has_default b))"
proof -
  let ?errs = "incompatibilities A B"
  have gone: "find_field B (fd_name f) = None"
    using assms(2) by (simp add: find_field_None)
  have mem: "FieldRemoved (fd_name f) \<in> set ?errs"
    unfolding in_incompatibilities FieldRemoved_in_check_field using assms(1) gone by blast
  then obtain e es where "?errs = e # es"
    by (cases ?errs) auto
  then have run: "isBackwardCompatible A B = Inl ?errs"
    by (simp add: isBackwardCompatible_def)
  have removed: "FieldRemoved n \<in> set ?errs \<longleftrightarrow>
      (\<exists>a. a \<in> set A \<and> fd_name a = n \<and> find_field B n = None)" for n
    unfolding in_incompatibilities FieldRemoved_in_check_field in_check_addition by blast
  have kinds: "KindNarrowed n \<in> set ?errs \<longleftrightarrow>
      (\<exists>a b. a \<in> set A \<and> fd_name a = n \<and> find_field B n = Some b \<and>
         \<not> kind_accepts (fd_kind a) (fd_kind b))" for n
    unfolding in_incompatibilities KindNarrowed_in_check_field in_check_addition by blast
  have opts: "OptionalityNarrowed n \<in> set ?errs \<longleftrightarrow>
      (\<exists>a b. a \<in> set A \<and> fd_name a = n \<and> find_field B n = Some b \<and>
         fd_optional a \<and> \<not> fd_optional b)" for n
    unfolding in_incompatibilities OptionalityNarrowed_in_check_field in_check_addition by blast
  have adds: "BreakingAddition n \<in> set ?errs \<longleftrightarrow>
      (\<exists>b. b \<in> set B \<and> fd_name b = n \<and> find_field A n = None \<and>
         \<not> fd_optional b \<and> \<not> fd_has_default b)" for n
    unfolding in_incompatibilities in_check_addition
    using BreakingAddition_in_check_field by blast
  show ?thesis
    using run mem removed kinds opts adds by blast
qed

text \<open>
  C7 from \<open>v4Person\<close> back to \<open>v3Person\<close>, which removes \<open>birth\<close>: the check fails and
  names the field.
\<close>

theorem removed_field_reported_witness:
  "\<lparr>fd_name = ''birth'', fd_kind = KDate, fd_optional = False, fd_has_default = False\<rparr>
     \<in> set v4Person_schema \<and>
   ''birth'' \<notin> fd_name ` set v3Person_schema \<and>
   (\<exists>errs. isBackwardCompatible v4Person_schema v3Person_schema = Inl errs \<and>
      FieldRemoved ''birth'' \<in> set errs) \<and>
   isBackwardCompatible v4Person_schema v3Person_schema = Inl [FieldRemoved ''birth'']"
proof -
  let ?birth = "\<lparr>fd_name = ''birth'', fd_kind = KDate, fd_optional = False,
                 fd_has_default = False\<rparr>"
  have present: "?birth \<in> set v4Person_schema"
    by (simp add: v4Person_schema_def)
  have gone: "fd_name ?birth \<notin> fd_name ` set v3Person_schema"
    by (simp add: v3Person_schema_def)
  obtain errs where
    "isBackwardCompatible v4Person_schema v3Person_schema = Inl errs"
    "FieldRemoved (fd_name ?birth) \<in> set errs"
    using removed_field_reported [OF present gone] by blast
  then have "\<exists>errs. isBackwardCompatible v4Person_schema v3Person_schema = Inl errs \<and>
               FieldRemoved ''birth'' \<in> set errs"
    by (intro exI [of _ errs]) simp
  moreover have "isBackwardCompatible v4Person_schema v3Person_schema =
                 Inl [FieldRemoved ''birth'']"
    by (simp add: schema_defs)
  ultimately show ?thesis
    using present gone by simp
qed

section \<open>The claim about the migration registry\<close>

lemma chain_gap:
  "v \<le> k \<Longrightarrow> k < v + n \<Longrightarrow> find (\<lambda>s. fromVersion s = k) reg = None \<Longrightarrow>
   chain reg v n = Inl NoPathError"
proof (induction n arbitrary: v)
  case 0
  then show ?case by simp
next
  case (Suc n)
  show ?case
  proof (cases "find (\<lambda>s. fromVersion s = v) reg")
    case None
    then show ?thesis by simp
  next
    case (Some s)
    then have "k \<noteq> v"
      using Suc.prems(3) by auto
    then have "chain reg (Suc v) n = Inl NoPathError"
      using Suc.prems by (intro Suc.IH) simp_all
    then show ?thesis
      by (simp add: Some)
  qed
qed

text \<open>
  C8. \<open>registerStep\<close> rejects a step that does not lead to the next version, and a step
  from a version that already has one. If the registry has no step from a version \<open>k\<close>
  between the start and the target, \<open>chainFrom\<close> fails with \<open>NoPathError\<close>, as it does
  from 1 to 4 when only the steps from 1 and from 3 are registered.
\<close>

theorem registry_rejects_and_gap:
  "(\<forall>from to t.
      to \<noteq> from + 1 \<or> find (\<lambda>s. fromVersion s = from) reg \<noteq> None \<longrightarrow>
      registerStep reg from to t = Inl ChainGapError) \<and>
   (\<forall>version target k.
      version \<le> k \<and> k < target \<and> find (\<lambda>s. fromVersion s = k) reg = None \<longrightarrow>
      chainFrom reg version target = Inl NoPathError)"
proof (intro conjI allI impI)
  fix v w :: nat and t :: "'a \<Rightarrow> 'a"
  assume "w \<noteq> v + 1 \<or> find (\<lambda>s. fromVersion s = v) reg \<noteq> None"
  then show "registerStep reg v w t = Inl ChainGapError"
    by (auto simp: registerStep_def)
next
  fix version target k :: nat
  assume gap: "version \<le> k \<and> k < target \<and> find (\<lambda>s. fromVersion s = k) reg = None"
  then have "chain reg version (target - version) = Inl NoPathError"
    by (intro chain_gap [of version k]) simp_all
  then show "chainFrom reg version target = Inl NoPathError"
    using gap by (simp add: chainFrom_def)
qed

text \<open>
  C8 at the registry of the claim: the steps from 1 to 2 and from 3 to 4 are accepted, the
  chain from 1 to 4 fails at the missing step from 2, a step from 1 to 3 and a second step
  from 1 are rejected.
\<close>

theorem registry_rejects_and_gap_witness:
  "registerStep ([] :: person MigrationStep list) 1 2 (\<lambda>p. p) =
     Inr [\<lparr>fromVersion = 1, toVersion = 2, transform = \<lambda>p. p\<rparr>] \<and>
   registerStep [\<lparr>fromVersion = 1, toVersion = 2, transform = \<lambda>p. p\<rparr>] 3 4
       (v3PersonTov4Person 1500000000000) =
     Inr [\<lparr>fromVersion = 1, toVersion = 2, transform = \<lambda>p. p\<rparr>,
          \<lparr>fromVersion = 3, toVersion = 4, transform = v3PersonTov4Person 1500000000000\<rparr>] \<and>
   chainFrom [\<lparr>fromVersion = 1, toVersion = 2, transform = \<lambda>p. p\<rparr>,
              \<lparr>fromVersion = 3, toVersion = 4, transform = v3PersonTov4Person 1500000000000\<rparr>]
       1 4 = Inl NoPathError \<and>
   registerStep [\<lparr>fromVersion = 1, toVersion = 2, transform = \<lambda>p. p\<rparr>,
                 \<lparr>fromVersion = 3, toVersion = 4, transform = v3PersonTov4Person 1500000000000\<rparr>]
       1 3 (\<lambda>p. p) = Inl ChainGapError \<and>
   registerStep [\<lparr>fromVersion = 1, toVersion = 2, transform = \<lambda>p. p\<rparr>,
                 \<lparr>fromVersion = 3, toVersion = 4, transform = v3PersonTov4Person 1500000000000\<rparr>]
       1 2 (\<lambda>p. p) = Inl ChainGapError"
proof -
  let ?reg = "[\<lparr>fromVersion = 1, toVersion = 2, transform = \<lambda>p. p\<rparr>,
               \<lparr>fromVersion = 3, toVersion = 4, transform = v3PersonTov4Person 1500000000000\<rparr>]"
  note inst = registry_rejects_and_gap [of ?reg]
  have gap: "(1::nat) \<le> 2 \<and> (2::nat) < 4 \<and> find (\<lambda>s. fromVersion s = 2) ?reg = None"
    by simp
  have chain: "chainFrom ?reg 1 4 = Inl NoPathError"
    using inst gap by blast
  have "(3::nat) \<noteq> 1 + 1 \<or> find (\<lambda>s. fromVersion s = 1) ?reg \<noteq> None"
    by simp
  then have skip: "registerStep ?reg 1 3 (\<lambda>p. p) = Inl ChainGapError"
    using inst by blast
  have "(2::nat) \<noteq> 1 + 1 \<or> find (\<lambda>s. fromVersion s = 1) ?reg \<noteq> None"
    by simp
  then have again: "registerStep ?reg 1 2 (\<lambda>p. p) = Inl ChainGapError"
    using inst by blast
  have first: "registerStep ([] :: person MigrationStep list) 1 2 (\<lambda>p. p) =
               Inr [\<lparr>fromVersion = 1, toVersion = 2, transform = \<lambda>p. p\<rparr>]"
    by (simp add: registerStep_def)
  have second: "registerStep [\<lparr>fromVersion = 1, toVersion = 2, transform = \<lambda>p. p\<rparr>] 3 4
                  (v3PersonTov4Person 1500000000000) = Inr ?reg"
    by (simp add: registerStep_def)
  show ?thesis
    using first second chain skip again by simp
qed

end
